theory Spec2Isabelle
  imports Main "HOL-Library.Sublist"
begin

section \<open>Python values used by the editor\<close>

text \<open>
  A Python \<open>str\<close> is a sequence of Unicode code points and \<open>len\<close> counts code points, so a
  string of the editor is a list of code points. Integers are Python's unbounded \<open>int\<close>.
  \<open>str\<close> writes an ASCII literal of the source as such a list.
\<close>

type_synonym pychar = nat
type_synonym pystr = "pychar list"

definition str :: "string \<Rightarrow> pystr" where
  "str s = map of_char s"

definition LF :: pychar where "LF = 10"
definition CR :: pychar where "CR = 13"
definition TAB :: pychar where "TAB = 9"
definition SPACE :: pychar where "SPACE = 32"
definition COLON :: pychar where "COLON = 58"
definition QUOTE :: pychar where "QUOTE = 39"

text \<open>
  The exceptions the editor's functions can meet. In Python \<open>IndentationError\<close> is a
  subclass of \<open>SyntaxError\<close>; here \<open>SyntaxError\<close> stands for one that is not an
  \<open>IndentationError\<close>.
\<close>

datatype exn =
  IndexError | TokenError | IndentationError | SyntaxError | SystemError | UnicodeEncodeError

definition and_then :: "exn + 'a \<Rightarrow> ('a \<Rightarrow> exn + 'b) \<Rightarrow> exn + 'b" where
  "and_then r f = (case r of Inl e \<Rightarrow> Inl e | Inr x \<Rightarrow> f x)"

text \<open>
  Indexing \<open>xs[i]\<close>: a negative index counts from the end, an index out of range raises
  \<open>IndexError\<close>. Slice bounds \<open>xs[i:]\<close>, \<open>xs[:i]\<close> are clipped instead and never raise.
\<close>

definition py_index :: "int \<Rightarrow> nat \<Rightarrow> nat option" where
  "py_index i n =
     (if 0 \<le> i \<and> i < int n then Some (nat i)
      else if i < 0 \<and> - int n \<le> i then Some (nat (i + int n))
      else None)"

definition py_get :: "'a list \<Rightarrow> int \<Rightarrow> exn + 'a" where
  "py_get xs i = (case py_index i (length xs) of None \<Rightarrow> Inl IndexError | Some k \<Rightarrow> Inr (xs ! k))"

definition py_set :: "'a list \<Rightarrow> int \<Rightarrow> 'a \<Rightarrow> exn + 'a list" where
  "py_set xs i v =
     (case py_index i (length xs) of None \<Rightarrow> Inl IndexError | Some k \<Rightarrow> Inr (xs[k := v]))"

definition py_pop :: "'a list \<Rightarrow> int \<Rightarrow> exn + 'a list" where
  "py_pop xs i =
     (case py_index i (length xs) of
        None \<Rightarrow> Inl IndexError
      | Some k \<Rightarrow> Inr (take k xs @ drop (Suc k) xs))"

definition py_clip :: "int \<Rightarrow> nat \<Rightarrow> nat" where
  "py_clip i n = (if i < 0 then nat (max 0 (i + int n)) else min (nat i) n)"

definition slice_to :: "'a list \<Rightarrow> int \<Rightarrow> 'a list" where
  "slice_to xs i = take (py_clip i (length xs)) xs"

definition slice_from :: "'a list \<Rightarrow> int \<Rightarrow> 'a list" where
  "slice_from xs i = drop (py_clip i (length xs)) xs"

definition del_slice :: "'a list \<Rightarrow> int \<Rightarrow> int \<Rightarrow> 'a list" where
  "del_slice xs i j =
     (let a = py_clip i (length xs); b = py_clip j (length xs)
      in take a xs @ drop (max a b) xs)"

definition py_insert :: "'a list \<Rightarrow> int \<Rightarrow> 'a \<Rightarrow> 'a list" where
  "py_insert xs i v = (let k = py_clip i (length xs) in take k xs @ [v] @ drop k xs)"

definition spaces :: "int \<Rightarrow> pystr" where
  "spaces n = replicate (nat n) SPACE"

section \<open>The line buffer\<close>

definition INDENT_WIDTH :: int where
  "INDENT_WIDTH = 4"

record buffer =
  lines :: "pystr list"
  file_path :: "pystr option"
  cursor_y :: int
  cursor_x :: int
  preferred_x :: int
  scroll_y :: int
  scroll_x :: int
  dirty :: bool
  selecting :: bool
  selection_start :: "int option"
  selection_end :: "int option"

text \<open>The invariants of the data model: at least one line, and the cursor inside the text.\<close>

definition buffer_inv :: "buffer \<Rightarrow> bool" where
  "buffer_inv buf =
     (lines buf \<noteq> [] \<and>
      0 \<le> cursor_y buf \<and> cursor_y buf < int (length (lines buf)) \<and>
      0 \<le> cursor_x buf \<and> cursor_x buf \<le> int (length (lines buf ! nat (cursor_y buf))))"

subsection \<open>Selection\<close>

definition clear_selection :: "buffer \<Rightarrow> buffer" where
  "clear_selection buf = buf\<lparr>selecting := False, selection_start := None, selection_end := None\<rparr>"

definition has_selection :: "buffer \<Rightarrow> bool" where
  "has_selection buf = (selection_start buf \<noteq> None \<and> selection_end buf \<noteq> None)"

definition selection_range :: "buffer \<Rightarrow> (int \<times> int) option" where
  "selection_range buf =
     (if \<not> has_selection buf then None
      else case (selection_start buf, selection_end buf) of
             (Some s, Some e) \<Rightarrow> Some (if s \<le> e then (s, e) else (e, s))
           | _ \<Rightarrow> None)"

text \<open>\<open>delete_selection\<close> returns whether it deleted, with the buffer after it.\<close>

definition delete_selection :: "buffer \<Rightarrow> bool \<times> buffer" where
  "delete_selection buf =
     (case selection_range buf of
        None \<Rightarrow> (False, buf)
      | Some (start0, end0) \<Rightarrow>
          let start = max 0 (min start0 (int (length (lines buf)) - 1));
              en = max 0 (min end0 (int (length (lines buf)) - 1))
          in if start > en then (False, buf)
             else let ls1 = del_slice (lines buf) start (en + 1);
                      ls2 = (if ls1 = [] then [[]] else ls1)
                  in (True,
                      clear_selection
                        (buf\<lparr>lines := ls2, cursor_y := min start (int (length ls2) - 1),
                             cursor_x := 0, preferred_x := 0, dirty := True\<rparr>)))"

text \<open>
  Every edit operation starts by deleting a selection that is fixed (present and no longer
  being extended).
\<close>

definition fixed_selection :: "buffer \<Rightarrow> bool" where
  "fixed_selection buf = (has_selection buf \<and> \<not> selecting buf)"

definition drop_fixed_selection :: "buffer \<Rightarrow> buffer" where
  "drop_fixed_selection buf =
     (if fixed_selection buf then snd (delete_selection buf) else buf)"

subsection \<open>Edit operations\<close>

definition insert_char :: "buffer \<Rightarrow> pystr \<Rightarrow> exn + buffer" where
  "insert_char buf0 ch =
     (let buf = drop_fixed_selection buf0
      in and_then (py_get (lines buf) (cursor_y buf)) (\<lambda>line.
         and_then (py_set (lines buf) (cursor_y buf)
                     (slice_to line (cursor_x buf) @ ch @ slice_from line (cursor_x buf))) (\<lambda>ls.
         Inr (buf\<lparr>lines := ls, cursor_x := cursor_x buf + int (length ch),
                  preferred_x := cursor_x buf + int (length ch), dirty := True\<rparr>))))"

text \<open>\<open>lstrip(chars)\<close>, \<open>rstrip()\<close> (Unicode whitespace) and \<open>endswith\<close>.\<close>

definition lstrip_chars :: "pychar list \<Rightarrow> pystr \<Rightarrow> pystr" where
  "lstrip_chars cs s = dropWhile (\<lambda>c. c \<in> set cs) s"

definition is_space :: "pychar \<Rightarrow> bool" where
  "is_space c =
     ((9 \<le> c \<and> c \<le> 13) \<or> (28 \<le> c \<and> c \<le> 32) \<or> c = 133 \<or> c = 160 \<or> c = 5760
      \<or> (8192 \<le> c \<and> c \<le> 8202) \<or> c = 8232 \<or> c = 8233 \<or> c = 8239 \<or> c = 8287
      \<or> c = 12288)"

definition rstrip :: "pystr \<Rightarrow> pystr" where
  "rstrip s = rev (dropWhile is_space (rev s))"

definition endswith :: "pystr \<Rightarrow> pystr \<Rightarrow> bool" where
  "endswith s sfx = (length sfx \<le> length s \<and> drop (length s - length sfx) s = sfx)"

definition newline :: "buffer \<Rightarrow> exn + buffer" where
  "newline buf0 =
     (let buf = drop_fixed_selection buf0
      in and_then (py_get (lines buf) (cursor_y buf)) (\<lambda>line.
         let before = slice_to line (cursor_x buf);
             after = slice_from line (cursor_x buf);
             indent = int (length before) - int (length (lstrip_chars [SPACE] before));
             extra = (if endswith (rstrip before) [COLON] then INDENT_WIDTH else 0)
         in and_then (py_set (lines buf) (cursor_y buf) before) (\<lambda>ls.
            Inr (buf\<lparr>lines := py_insert ls (cursor_y buf + 1)
                                 (spaces (indent + extra) @ lstrip_chars [SPACE] after),
                     cursor_y := cursor_y buf + 1, cursor_x := indent + extra,
                     preferred_x := indent + extra, dirty := True\<rparr>))))"

text \<open>The leading indentation of a line: the number of spaces it starts with.\<close>

definition leading_spaces :: "pystr \<Rightarrow> nat" where
  "leading_spaces s = length (takeWhile (\<lambda>c. c = SPACE) s)"

definition backspace :: "buffer \<Rightarrow> exn + buffer" where
  "backspace buf =
     (if fixed_selection buf then Inr (snd (delete_selection buf))
      else if cursor_x buf > 0 then
        and_then (py_get (lines buf) (cursor_y buf)) (\<lambda>line.
        and_then (py_set (lines buf) (cursor_y buf)
                    (slice_to line (cursor_x buf - 1) @ slice_from line (cursor_x buf))) (\<lambda>ls.
        Inr (buf\<lparr>lines := ls, cursor_x := cursor_x buf - 1,
                 preferred_x := cursor_x buf - 1, dirty := True\<rparr>)))
      else if cursor_y buf = 0 then Inr buf
      else
        and_then (py_get (lines buf) (cursor_y buf - 1)) (\<lambda>prev_line.
        and_then (py_get (lines buf) (cursor_y buf)) (\<lambda>curr_line.
        and_then (py_set (lines buf) (cursor_y buf - 1) (prev_line @ curr_line)) (\<lambda>ls.
        and_then (py_pop ls (cursor_y buf)) (\<lambda>ls'.
        Inr (buf\<lparr>lines := ls', cursor_y := cursor_y buf - 1,
                 cursor_x := int (length prev_line),
                 preferred_x := int (length prev_line), dirty := True\<rparr>))))))"

definition delete_forward :: "buffer \<Rightarrow> exn + buffer" where
  "delete_forward buf =
     (if fixed_selection buf then Inr (snd (delete_selection buf))
      else
        and_then (py_get (lines buf) (cursor_y buf)) (\<lambda>line.
        if cursor_x buf < int (length line) then
          and_then (py_set (lines buf) (cursor_y buf)
                      (slice_to line (cursor_x buf) @ slice_from line (cursor_x buf + 1))) (\<lambda>ls.
          Inr (buf\<lparr>lines := ls, dirty := True\<rparr>))
        else if cursor_y buf \<ge> int (length (lines buf)) - 1 then Inr buf
        else
          and_then (py_get (lines buf) (cursor_y buf + 1)) (\<lambda>next_line.
          and_then (py_set (lines buf) (cursor_y buf) (line @ next_line)) (\<lambda>ls.
          and_then (py_pop ls (cursor_y buf + 1)) (\<lambda>ls'.
          Inr (buf\<lparr>lines := ls', dirty := True\<rparr>))))))"

text \<open>A finite sequence of the three character-level operations, stopping at an exception.\<close>

datatype edit_op = InsertChar pystr | Backspace | DeleteForward

fun apply_op :: "buffer \<Rightarrow> edit_op \<Rightarrow> exn + buffer" where
  "apply_op buf (InsertChar ch) = insert_char buf ch"
| "apply_op buf Backspace = backspace buf"
| "apply_op buf DeleteForward = delete_forward buf"

fun apply_ops :: "buffer \<Rightarrow> edit_op list \<Rightarrow> exn + buffer" where
  "apply_ops buf [] = Inr buf"
| "apply_ops buf (op # ops) = and_then (apply_op buf op) (\<lambda>buf'. apply_ops buf' ops)"

subsection \<open>Viewport\<close>

definition ensure_cursor_visible :: "buffer \<Rightarrow> int \<Rightarrow> int \<Rightarrow> buffer" where
  "ensure_cursor_visible buf body_h editor_w =
     (let b1 = (if cursor_y buf < scroll_y buf then buf\<lparr>scroll_y := cursor_y buf\<rparr>
                else if cursor_y buf \<ge> scroll_y buf + body_h
                then buf\<lparr>scroll_y := cursor_y buf - body_h + 1\<rparr>
                else buf);
          b2 = (if cursor_x b1 < scroll_x b1 then b1\<lparr>scroll_x := cursor_x b1\<rparr>
                else if cursor_x b1 \<ge> scroll_x b1 + editor_w
                then b1\<lparr>scroll_x := cursor_x b1 - editor_w + 1\<rparr>
                else b1);
          b3 = b2\<lparr>scroll_y := max 0 (scroll_y b2)\<rparr>
      in b3\<lparr>scroll_x := max 0 (scroll_x b3)\<rparr>)"

text \<open>A buffer with the cursor on line 25 (0-based) of 30 lines, scrolled to the top.\<close>

definition view_example :: buffer where
  "view_example =
     \<lparr>lines = replicate 30 [], file_path = None, cursor_y = 25, cursor_x = 0, preferred_x = 0,
      scroll_y = 0, scroll_x = 0, dirty = False, selecting = False,
      selection_start = None, selection_end = None\<rparr>"

section \<open>Loading and saving\<close>

text \<open>\<open>sep.join(xs)\<close>.\<close>

fun py_join :: "pystr \<Rightarrow> pystr list \<Rightarrow> pystr" where
  "py_join sep [] = []"
| "py_join sep [x] = x"
| "py_join sep (x # y # ys) = x @ sep @ py_join sep (y # ys)"

text \<open>
  \<open>str.splitlines()\<close> ends a line at each of LF, VT, FF, CR (CR LF counting once), FS, GS,
  RS, NEL, LS and PS, and yields no final empty line.
\<close>

definition is_linebreak :: "pychar \<Rightarrow> bool" where
  "is_linebreak c =
     ((10 \<le> c \<and> c \<le> 13) \<or> (28 \<le> c \<and> c \<le> 30) \<or> c = 133 \<or> c = 8232 \<or> c = 8233)"

function splitlines_from :: "pystr \<Rightarrow> pystr \<Rightarrow> pystr list" where
  "splitlines_from cur [] = (if cur = [] then [] else [cur])"
| "splitlines_from cur (c # cs) =
     (if c = CR \<and> cs \<noteq> [] \<and> hd cs = LF then cur # splitlines_from [] (tl cs)
      else if is_linebreak c then cur # splitlines_from [] cs
      else splitlines_from (cur @ [c]) cs)"
  by pat_completeness auto
termination
  by (relation "measure (\<lambda>(cur, s). length s)") auto

definition splitlines :: "pystr \<Rightarrow> pystr list" where
  "splitlines text = splitlines_from [] text"

text \<open>
  A file is modelled by the text whose UTF-8 encoding it holds. \<open>write_text\<close> opens the
  file for writing, which empties it, and encodes the text: UTF-8 has no encoding for the
  surrogate code points D800 to DFFF (and a code point is below 110000), so a text with one
  raises \<open>UnicodeEncodeError\<close> and the file stays empty; any other text is stored as it is
  (the editor runs on POSIX terminals only, where a line feed is written as a line feed).
  The result is the exception, or the text now in the file. \<open>read_text\<close> decodes what was
  encoded and opens the file in text mode, which turns CR LF and a lone CR into LF.
\<close>

definition utf8_encodable :: "pychar \<Rightarrow> bool" where
  "utf8_encodable c = (c < 55296 \<or> (57343 < c \<and> c < 1114112))"

definition write_text :: "pystr \<Rightarrow> exn + pystr" where
  "write_text text = (if list_all utf8_encodable text then Inr text else Inl UnicodeEncodeError)"

fun read_text :: "pystr \<Rightarrow> pystr" where
  "read_text [] = []"
| "read_text [c] = (if c = CR then [LF] else [c])"
| "read_text (c # d # cs) =
     (if c = CR \<and> d = LF then LF # read_text cs
      else if c = CR then LF # read_text (d # cs)
      else c # read_text (d # cs))"

definition load_file :: "pystr \<Rightarrow> pystr list" where
  "load_file content =
     (let text = read_text content;
          ls = splitlines text;
          ls' = (if endswith text [LF] then ls @ [[]] else ls)
      in if ls' = [] then [[]] else ls')"

definition save_file :: "pystr list \<Rightarrow> exn + pystr" where
  "save_file ls = write_text (py_join [LF] ls)"

text \<open>The text in the file once \<open>save_file\<close> has returned or raised.\<close>

definition file_after_save :: "pystr list \<Rightarrow> pystr" where
  "file_after_save ls = (case save_file ls of Inl e \<Rightarrow> [] | Inr content \<Rightarrow> content)"

text \<open>Saving the lines and, when that returns, loading the file.\<close>

definition save_then_load :: "pystr list \<Rightarrow> exn + pystr list" where
  "save_then_load ls = and_then (save_file ls) (\<lambda>content. Inr (load_file content))"

section \<open>Searching\<close>

record EditorState =
  buffers :: "buffer list"
  active :: int
  clipboard :: "pystr list"
  last_search :: pystr
  status :: pystr
  show_help :: bool

definition current_buffer :: "EditorState \<Rightarrow> exn + buffer" where
  "current_buffer state = py_get (buffers state) (active state)"

text \<open>
  The source mutates the buffer object it got from \<open>current_buffer\<close>; in the model the
  changed buffer is stored back at the same index.
\<close>

definition store_current :: "EditorState \<Rightarrow> buffer \<Rightarrow> exn + EditorState" where
  "store_current state buf =
     and_then (py_set (buffers state) (active state) buf) (\<lambda>bs. Inr (state\<lparr>buffers := bs\<rparr>))"

definition set_status :: "EditorState \<Rightarrow> pystr \<Rightarrow> EditorState" where
  "set_status state message = state\<lparr>status := message\<rparr>"

text \<open>Decimal formatting of an integer inside an f-string.\<close>

function digits_of_nat :: "nat \<Rightarrow> pystr" where
  "digits_of_nat n = (if n < 10 then [48 + n] else digits_of_nat (n div 10) @ [48 + n mod 10])"
  by pat_completeness auto
termination
  by (relation "measure id") auto

definition format_int :: "int \<Rightarrow> pystr" where
  "format_int i = (if i < 0 then 45 # digits_of_nat (nat (- i)) else digits_of_nat (nat i))"

text \<open>
  \<open>s.find(sub, start)\<close>: a negative start counts from the end, and the result is the
  lowest index at or after the start where \<open>sub\<close> occurs, or \<open>-1\<close>.
\<close>

definition py_find :: "pystr \<Rightarrow> pystr \<Rightarrow> int \<Rightarrow> int" where
  "py_find s sub start =
     (let n = int (length s);
          st = (if start < 0 then max 0 (start + n) else start)
      in if n - st < int (length sub) then - 1
         else case List.find (\<lambda>i. take (length sub) (drop i s) = sub)
                     [nat st ..< Suc (length s - length sub)] of
                None \<Rightarrow> - 1
              | Some i \<Rightarrow> int i)"

text \<open>
  One search loop of \<open>find_next\<close> over the line indices \<open>idxs\<close>, searching line \<open>i\<close> from
  column \<open>col i\<close>: the first hit as (line index, position), or \<open>None\<close>.
\<close>

fun scan_lines ::
  "pystr list \<Rightarrow> pystr \<Rightarrow> (int \<Rightarrow> int) \<Rightarrow> int list \<Rightarrow> exn + (int \<times> int) option" where
  "scan_lines ls query col [] = Inr None"
| "scan_lines ls query col (line_idx # rest) =
     (case py_get ls line_idx of
        Inl e \<Rightarrow> Inl e
      | Inr line \<Rightarrow>
          if py_find line query (col line_idx) \<noteq> - 1
          then Inr (Some (line_idx, py_find line query (col line_idx)))
          else scan_lines ls query col rest)"

definition move_to_hit :: "buffer \<Rightarrow> int \<Rightarrow> int \<Rightarrow> buffer" where
  "move_to_hit buf line_idx pos = buf\<lparr>cursor_y := line_idx, cursor_x := pos, preferred_x := pos\<rparr>"

definition find_next :: "EditorState \<Rightarrow> exn + EditorState" where
  "find_next state =
     and_then (current_buffer state) (\<lambda>buf.
       if last_search state = [] then Inr (set_status state (str ''Find: no search term.''))
       else
         and_then (scan_lines (lines buf) (last_search state)
                     (\<lambda>i. if i = cursor_y buf then cursor_x buf + 1 else 0)
                     [cursor_y buf .. int (length (lines buf)) - 1]) (\<lambda>hit1.
         case hit1 of
           Some (line_idx, pos) \<Rightarrow>
             and_then (store_current state (move_to_hit buf line_idx pos)) (\<lambda>state'.
               Inr (set_status state'
                      (str ''Found '' @ [QUOTE] @ last_search state @ [QUOTE] @ str '' at line ''
                       @ format_int (line_idx + 1) @ str ''.'')))
         | None \<Rightarrow>
             and_then (scan_lines (lines buf) (last_search state) (\<lambda>i. 0)
                         [0 .. cursor_y buf]) (\<lambda>hit2.
             case hit2 of
               Some (line_idx, pos) \<Rightarrow>
                 and_then (store_current state (move_to_hit buf line_idx pos)) (\<lambda>state'.
                   Inr (set_status state'
                          (str ''Wrapped to '' @ [QUOTE] @ last_search state @ [QUOTE]
                           @ str '' at line '' @ format_int (line_idx + 1) @ str ''.'')))
             | None \<Rightarrow>
                 Inr (set_status state
                        ([QUOTE] @ last_search state @ [QUOTE] @ str '' not found.'')))))"

section \<open>Tokens\<close>

text \<open>
  The token stream comes from the \<open>tokenize\<close> module of Python's standard library, which is
  not part of the editor: the tokenizer is a parameter. Applied to the source text it gives
  the tokens it yields, in order, and the exception that ends the iteration, if any.
  Of a token the editor reads the type, the string, and the (line, column) positions of its
  start and end, lines counted from 1 and columns from 0.
\<close>

datatype token_type =
  COMMENT | STRING | NUMBER | OP | NAME | NL | NEWLINE | INDENT | DEDENT | ENCODING | ENDMARKER
  | OtherType nat

record token =
  ttype :: token_type
  tstring :: pystr
  tstart :: "int \<times> int"
  tend :: "int \<times> int"

type_synonym tokenizer = "pystr \<Rightarrow> token list \<times> exn option"

text \<open>The text handed to the tokenizer: the lines joined by LF, ending in LF.\<close>

definition source_text :: "pystr list \<Rightarrow> pystr" where
  "source_text ls =
     (let text = py_join [LF] ls in if \<not> endswith text [LF] then text @ [LF] else text)"

text \<open>\<open>sub in s\<close> on strings: \<open>sub\<close> occurs in \<open>s\<close> as a contiguous piece.\<close>

definition py_in :: "pystr \<Rightarrow> pystr \<Rightarrow> bool" where
  "py_in sub s = list_ex (\<lambda>i. take (length sub) (drop i s) = sub) [0 ..< Suc (length s)]"

section \<open>Indentation analysis and cleanup\<close>

record indent_state =
  line_indents :: "int \<rightharpoonup> int"
  skip_lines :: "int set"
  current_indent :: int
  paren_level :: int

text \<open>The body of the loop of \<open>compute_indents\<close> for one token.\<close>

definition indent_step :: "token \<Rightarrow> indent_state \<Rightarrow> indent_state" where
  "indent_step tok st =
     (let start_line = fst (tstart tok);
          end_line = fst (tend tok);
          paren =
            (if ttype tok = OP then
               (if py_in (tstring tok) (str ''([{'') then paren_level st + 1
                else if py_in (tstring tok) (str '')]}'') then max 0 (paren_level st - 1)
                else paren_level st)
             else paren_level st);
          skip1 =
            (if ttype tok = STRING \<and> start_line \<noteq> end_line
             then fold insert [start_line .. end_line] (skip_lines st)
             else skip_lines st);
          skip2 = (if paren > 0 then insert start_line skip1 else skip1);
          st1 = st\<lparr>paren_level := paren, skip_lines := skip2\<rparr>
      in if ttype tok = INDENT then
           (let st2 = st1\<lparr>current_indent := current_indent st1 + 1\<rparr>
            in if start_line \<notin> skip2
               then st2\<lparr>line_indents := (line_indents st2)(start_line \<mapsto> current_indent st2)\<rparr>
               else st2)
         else if ttype tok = DEDENT then
           (let st2 = st1\<lparr>current_indent := max 0 (current_indent st1 - 1)\<rparr>
            in if start_line \<notin> skip2
               then st2\<lparr>line_indents := (line_indents st2)(start_line \<mapsto> current_indent st2)\<rparr>
               else st2)
         else if ttype tok \<notin> {NL, NEWLINE, ENCODING, ENDMARKER} then
           (if start_line \<notin> skip2 \<and> line_indents st1 start_line = None
            then st1\<lparr>line_indents := (line_indents st1)(start_line \<mapsto> current_indent st1)\<rparr>
            else st1)
         else st1)"

definition compute_indents ::
  "tokenizer \<Rightarrow> pystr list \<Rightarrow> exn + ((int \<rightharpoonup> int) \<times> int set) option" where
  "compute_indents generate_tokens ls =
     (let st = fold indent_step (fst (generate_tokens (source_text ls)))
                 \<lparr>line_indents = Map.empty, skip_lines = {}, current_indent = 0, paren_level = 0\<rparr>
      in case snd (generate_tokens (source_text ls)) of
           Some e \<Rightarrow>
             if e = TokenError \<or> e = IndentationError \<or> e = SyntaxError then Inr None else Inl e
         | None \<Rightarrow> Inr (Some (line_indents st, skip_lines st)))"

text \<open>
  The leading run of spaces and tabs of a line with each tab replaced by one indent unit
  of spaces, followed by the rest of the line (written twice in \<open>cleanup_indentation\<close>).
\<close>

definition replace_tabs :: "pystr \<Rightarrow> pystr" where
  "replace_tabs s = concat (map (\<lambda>c. if c = TAB then spaces INDENT_WIDTH else [c]) s)"

definition expand_leading_tabs :: "pystr \<Rightarrow> pystr" where
  "expand_leading_tabs raw =
     (let prefix_len = int (length raw) - int (length (lstrip_chars [SPACE, TAB] raw))
      in replace_tabs (slice_to raw prefix_len) @ slice_from raw prefix_len)"

text \<open>The loop over \<open>enumerate(lines, start=1)\<close> when the indents were computed.\<close>

fun cleanup_lines :: "(int \<rightharpoonup> int) \<Rightarrow> int set \<Rightarrow> int \<Rightarrow> pystr list \<Rightarrow> pystr list" where
  "cleanup_lines indents skip idx [] = []"
| "cleanup_lines indents skip idx (raw # rest) =
     (if idx \<in> skip then raw
      else if rstrip (expand_leading_tabs raw) = [] then []
      else spaces ((case indents idx of None \<Rightarrow> 0 | Some l \<Rightarrow> l) * INDENT_WIDTH)
           @ lstrip_chars [SPACE] (rstrip (expand_leading_tabs raw)))
     # cleanup_lines indents skip (idx + 1) rest"

definition non_empty_or_blank :: "pystr list \<Rightarrow> pystr list" where
  "non_empty_or_blank cleaned = (if cleaned = [] then [[]] else cleaned)"

definition cleanup_indentation :: "tokenizer \<Rightarrow> pystr list \<Rightarrow> exn + pystr list \<times> pystr" where
  "cleanup_indentation generate_tokens ls =
     and_then (compute_indents generate_tokens ls) (\<lambda>computed.
       case computed of
         None \<Rightarrow>
           Inr (non_empty_or_blank (map (\<lambda>raw. rstrip (expand_leading_tabs raw)) ls),
                str ''Cleanup: normalized tabs + trailing whitespace (parse failed).'')
       | Some (indents, skip) \<Rightarrow>
           Inr (non_empty_or_blank (cleanup_lines indents skip 1 ls),
                str ''Indentation normalized to 4 spaces.''))"

section \<open>Syntax classification\<close>

record TokenSpan =
  span_start :: int
  span_end :: int
  span_style :: pystr

type_synonym span_map = "int \<rightharpoonup> TokenSpan list"

definition add_span :: "span_map \<Rightarrow> int \<Rightarrow> int \<Rightarrow> int \<Rightarrow> pystr \<Rightarrow> span_map" where
  "add_span spans line_no start_col end_col style =
     (if end_col \<le> start_col then spans
      else spans(line_no \<mapsto>
             (case spans line_no of None \<Rightarrow> [] | Some l \<Rightarrow> l)
             @ [\<lparr>span_start = start_col, span_end = end_col, span_style = style\<rparr>]))"

text \<open>
  The style of one token, with the two flags \<open>pending_def\<close> and \<open>pending_class\<close> after it.
  The keyword list and the set of builtin names belong to the Python runtime and are
  parameters. An empty style means that the token gets no span.
\<close>

definition classify ::
  "pystr list \<Rightarrow> pystr set \<Rightarrow> token \<Rightarrow> bool \<times> bool \<Rightarrow> pystr \<times> bool \<times> bool" where
  "classify kwlist builtins tok pending =
     (let pending_def = fst pending; pending_class = snd pending
      in if ttype tok = COMMENT then (str ''comment'', pending)
         else if ttype tok = STRING then (str ''string'', pending)
         else if ttype tok = NUMBER then (str ''number'', pending)
         else if ttype tok = OP \<and> tstring tok = str ''@'' then (str ''decorator'', pending)
         else if ttype tok = NAME then
           (if tstring tok \<in> set kwlist then
              (if tstring tok = str ''def'' then (str ''keyword'', True, False)
               else if tstring tok = str ''class'' then (str ''keyword'', False, True)
               else (str ''keyword'', pending))
            else if pending_def then (str ''defname'', False, pending_class)
            else if pending_class then (str ''classname'', pending_def, False)
            else if tstring tok \<in> builtins then (str ''builtin'', pending)
            else ([], pending))
         else ([], pending))"

text \<open>The spans of one styled token: one span on its line, or one per line it covers.\<close>

definition emit_spans :: "pystr list \<Rightarrow> token \<Rightarrow> pystr \<Rightarrow> span_map \<Rightarrow> span_map" where
  "emit_spans ls tok style spans =
     (let start_line = fst (tstart tok); start_col = snd (tstart tok);
          end_line = fst (tend tok); end_col = snd (tend tok)
      in if start_line = end_line then add_span spans start_line start_col end_col style
         else
           (let s1 = (if 0 \<le> start_line - 1 \<and> start_line - 1 < int (length ls)
                      then add_span spans start_line start_col
                             (int (length (ls ! nat (start_line - 1)))) style
                      else spans);
                s2 = fold (\<lambda>line_no s.
                             if 0 \<le> line_no - 1 \<and> line_no - 1 < int (length ls)
                             then add_span s line_no 0 (int (length (ls ! nat (line_no - 1)))) style
                             else s)
                       [start_line + 1 .. end_line - 1] s1
            in add_span s2 end_line 0 end_col style))"

text \<open>The body of the loop of \<open>build_syntax_spans\<close> for one token.\<close>

definition span_step ::
  "pystr list \<Rightarrow> pystr set \<Rightarrow> pystr list \<Rightarrow> token \<Rightarrow> span_map \<times> bool \<times> bool
   \<Rightarrow> span_map \<times> bool \<times> bool" where
  "span_step kwlist builtins ls tok acc =
     (let style = fst (classify kwlist builtins tok (snd acc));
          pending = snd (classify kwlist builtins tok (snd acc))
      in if style = [] then (fst acc, pending)
         else (emit_spans ls tok style (fst acc), pending))"

definition build_syntax_spans ::
  "tokenizer \<Rightarrow> pystr list \<Rightarrow> pystr set \<Rightarrow> pystr list \<Rightarrow> exn + span_map" where
  "build_syntax_spans generate_tokens kwlist builtins ls =
     (let spans = fst (fold (span_step kwlist builtins ls)
                         (fst (generate_tokens (source_text ls))) (Map.empty, False, False))
      in case snd (generate_tokens (source_text ls)) of
           Some e \<Rightarrow> if e = TokenError \<or> e = IndentationError then Inr Map.empty else Inl e
         | None \<Rightarrow> Inr (\<lambda>line_no. map_option (sort_key span_start) (spans line_no)))"













section \<open>Example token streams\<close>

definition mk_token :: "token_type \<Rightarrow> pystr \<Rightarrow> int \<times> int \<Rightarrow> int \<times> int \<Rightarrow> token" where
  "mk_token ty s p q = \<lparr>ttype = ty, tstring = s, tstart = p, tend = q\<rparr>"



text \<open>
  The three lines \<open>"""\<close>, tab \<open>x\<close> and \<open>"""\<close>: one string whose middle line starts with a tab.
\<close>

definition tab_lines :: "pystr list" where
  "tab_lines = [str ''\"\"\"'', [TAB] @ str ''x'', str ''\"\"\"'']"

definition tab_tokens :: tokenizer where
  "tab_tokens text =
     ([mk_token STRING (str ''\"\"\"'' @ [LF, TAB] @ str ''x'' @ [LF] @ str ''\"\"\"'') (1, 0) (3, 3),
       mk_token NEWLINE [LF] (3, 3) (3, 4),
       mk_token ENDMARKER [] (4, 0) (4, 0)], None)"

text \<open>
  The line \<open>print(1\<close>: the bracket is never closed, and the tokenizer raises \<open>TokenError\<close>
  after the tokens of the line.
\<close>

definition open_lines :: "pystr list" where
  "open_lines = [str ''print(1'']"

definition open_tokens :: tokenizer where
  "open_tokens text =
     ([mk_token NAME (str ''print'') (1, 0) (1, 5),
       mk_token OP (str ''('') (1, 5) (1, 6),
       mk_token NUMBER (str ''1'') (1, 6) (1, 7),
       mk_token NL [LF] (1, 7) (1, 8)], Some TokenError)"



text \<open>
  The two lines space \<open>a\<close> and a null character, as loaded from a file with these bytes.
  The tokenizer of Python 3.12.3 yields the tokens of the first line and then raises
  \<open>SystemError\<close>.
\<close>

definition null_lines :: "pystr list" where
  "null_lines = [str '' a'', [0]]"

definition null_tokens :: tokenizer where
  "null_tokens text =
     ([mk_token INDENT (str '' '') (1, 0) (1, 1),
       mk_token NAME (str ''a'') (1, 1) (1, 2),
       mk_token NEWLINE [LF] (1, 2) (1, 3)], Some SystemError)"

text \<open>A tokenizer that raises a \<open>SyntaxError\<close> at once.\<close>

definition syntax_error_tokens :: tokenizer where
  "syntax_error_tokens text = ([], Some SyntaxError)"

section \<open>Example buffers\<close>

text \<open>Two lines \<open>ab\<close> and \<open>c\<close>, the cursor at the start of the second.\<close>

definition edit_example :: buffer where
  "edit_example =
     \<lparr>lines = [str ''ab'', str ''c''], file_path = None, cursor_y = 1, cursor_x = 0,
      preferred_x = 0, scroll_y = 0, scroll_x = 0, dirty = False, selecting = False,
      selection_start = None, selection_end = None\<rparr>"

text \<open>One line, four spaces and \<open>x\<close>, with the cursor inside the indentation at column 2.\<close>

definition indent_example :: buffer where
  "indent_example =
     \<lparr>lines = [str ''    x''], file_path = None, cursor_y = 0, cursor_x = 2,
      preferred_x = 2, scroll_y = 0, scroll_x = 0, dirty = False, selecting = False,
      selection_start = None, selection_end = None\<rparr>"

text \<open>One line \<open>a:\<close> with the cursor at its end, and one line \<open>ab\<close> with the cursor in it.\<close>

definition colon_example :: buffer where
  "colon_example =
     \<lparr>lines = [str ''a:''], file_path = None, cursor_y = 0, cursor_x = 2,
      preferred_x = 2, scroll_y = 0, scroll_x = 0, dirty = False, selecting = False,
      selection_start = None, selection_end = None\<rparr>"

definition plain_example :: buffer where
  "plain_example =
     \<lparr>lines = [str ''ab''], file_path = None, cursor_y = 0, cursor_x = 1,
      preferred_x = 1, scroll_y = 0, scroll_x = 0, dirty = False, selecting = False,
      selection_start = None, selection_end = None\<rparr>"

text \<open>
  An editor with one buffer, the lines \<open>foo\<close> and \<open>bar foo\<close>, the cursor at the start and
  \<open>foo\<close> as the search term.
\<close>

definition search_example :: EditorState where
  "search_example =
     \<lparr>buffers = [\<lparr>lines = [str ''foo'', str ''bar foo''], file_path = None, cursor_y = 0,
                   cursor_x = 0, preferred_x = 0, scroll_y = 0, scroll_x = 0, dirty = False,
                   selecting = False, selection_start = None, selection_end = None\<rparr>],
      active = 0, clipboard = [], last_search = str ''foo'', status = str ''Ready'',
      show_help = True\<rparr>"

section \<open>Viewport adjustment\<close>

text \<open>
  C6. For body dimensions of at least 1, the adjustment moves \<open>scroll_y\<close> to \<open>cursor_y\<close> when
  the cursor is above the window, to \<open>cursor_y - height + 1\<close> when it is at or below the
  window's end, leaves it otherwise, does the same horizontally with \<open>cursor_x\<close> and the
  width, and clamps both offsets at 0; nothing else of the buffer changes. With height 10
  and \<open>scroll_y = 0\<close>, a cursor on line 25 gives \<open>scroll_y = 16\<close>.
\<close>

theorem ensure_cursor_visible_rule:
  assumes "1 \<le> h" and "1 \<le> w"
  shows "(cursor_y buf < scroll_y buf \<longrightarrow>
            scroll_y (ensure_cursor_visible buf h w) = max 0 (cursor_y buf))
       \<and> (cursor_y buf \<ge> scroll_y buf + h \<longrightarrow>
            scroll_y (ensure_cursor_visible buf h w) = max 0 (cursor_y buf - h + 1))
       \<and> (scroll_y buf \<le> cursor_y buf \<and> cursor_y buf < scroll_y buf + h \<longrightarrow>
            scroll_y (ensure_cursor_visible buf h w) = max 0 (scroll_y buf))
       \<and> (cursor_x buf < scroll_x buf \<longrightarrow>
            scroll_x (ensure_cursor_visible buf h w) = max 0 (cursor_x buf))
       \<and> (cursor_x buf \<ge> scroll_x buf + w \<longrightarrow>
            scroll_x (ensure_cursor_visible buf h w) = max 0 (cursor_x buf - w + 1))
       \<and> (scroll_x buf \<le> cursor_x buf \<and> cursor_x buf < scroll_x buf + w \<longrightarrow>
            scroll_x (ensure_cursor_visible buf h w) = max 0 (scroll_x buf))
       \<and> 0 \<le> scroll_y (ensure_cursor_visible buf h w)
       \<and> 0 \<le> scroll_x (ensure_cursor_visible buf h w)
       \<and> ensure_cursor_visible buf h w =
            buf\<lparr>scroll_y := scroll_y (ensure_cursor_visible buf h w),
                scroll_x := scroll_x (ensure_cursor_visible buf h w)\<rparr>
       \<and> scroll_y (ensure_cursor_visible (buf\<lparr>cursor_y := 25, scroll_y := 0\<rparr>) 10 w) = 16"
  using assms by (simp add: ensure_cursor_visible_def Let_def)

theorem ensure_cursor_visible_rule_witness:
  "scroll_y (ensure_cursor_visible view_example 10 80) = 16
   \<and> scroll_x (ensure_cursor_visible view_example 10 80) = 0"
  using ensure_cursor_visible_rule [of 10 80 view_example]
  by (simp add: view_example_def)

text \<open>
  C10. When the cursor is not negative (as the bounds invariant gives), the scroll offsets
  are not negative and the body is at least 1 by 1, the adjusted window contains the
  cursor, and both offsets stay non-negative.
\<close>

theorem ensure_cursor_visible_contains_cursor:
  assumes "buffer_inv buf" and "0 \<le> scroll_y buf" and "0 \<le> scroll_x buf"
    and "1 \<le> h" and "1 \<le> w"
  shows "scroll_y (ensure_cursor_visible buf h w) \<le> cursor_y (ensure_cursor_visible buf h w)
       \<and> cursor_y (ensure_cursor_visible buf h w) < scroll_y (ensure_cursor_visible buf h w) + h
       \<and> scroll_x (ensure_cursor_visible buf h w) \<le> cursor_x (ensure_cursor_visible buf h w)
       \<and> cursor_x (ensure_cursor_visible buf h w) < scroll_x (ensure_cursor_visible buf h w) + w
       \<and> 0 \<le> scroll_y (ensure_cursor_visible buf h w)
       \<and> 0 \<le> scroll_x (ensure_cursor_visible buf h w)
       \<and> cursor_y (ensure_cursor_visible buf h w) = cursor_y buf
       \<and> cursor_x (ensure_cursor_visible buf h w) = cursor_x buf"
  using assms by (simp add: ensure_cursor_visible_def buffer_inv_def Let_def)

theorem ensure_cursor_visible_contains_cursor_witness:
  "buffer_inv view_example
   \<and> scroll_y (ensure_cursor_visible view_example 10 80) \<le> 25
   \<and> 25 < scroll_y (ensure_cursor_visible view_example 10 80) + 10"
proof -
  have inv: "buffer_inv view_example"
    by (simp add: buffer_inv_def view_example_def)
  have "cursor_y view_example = 25"
    by (simp add: view_example_def)
  with inv ensure_cursor_visible_contains_cursor [of view_example 10 80] show ?thesis
    by (simp add: view_example_def)
qed

section \<open>Edit operations keep the buffer well-formed\<close>

lemma py_index_inb: "0 \<le> i \<Longrightarrow> i < int n \<Longrightarrow> py_index i n = Some (nat i)"
  by (simp add: py_index_def)

lemma py_get_inb: "0 \<le> i \<Longrightarrow> i < int (length xs) \<Longrightarrow> py_get xs i = Inr (xs ! nat i)"
  by (simp add: py_get_def py_index_inb)

lemma py_set_inb: "0 \<le> i \<Longrightarrow> i < int (length xs) \<Longrightarrow> py_set xs i v = Inr (xs[nat i := v])"
  by (simp add: py_set_def py_index_inb)

lemma py_pop_inb:
  "0 \<le> i \<Longrightarrow> i < int (length xs) \<Longrightarrow> py_pop xs i = Inr (take (nat i) xs @ drop (Suc (nat i)) xs)"
  by (simp add: py_pop_def py_index_inb)

lemma slice_inb:
  "0 \<le> i \<Longrightarrow> i \<le> int (length xs) \<Longrightarrow> slice_to xs i = take (nat i) xs"
  "0 \<le> i \<Longrightarrow> i \<le> int (length xs) \<Longrightarrow> slice_from xs i = drop (nat i) xs"
  by (auto simp: slice_to_def slice_from_def py_clip_def min_def)

lemma and_then_Inr [simp]: "and_then (Inr x) f = f x"
  by (simp add: and_then_def)

lemma and_then_Inl [simp]: "and_then (Inl e) f = Inl e"
  by (simp add: and_then_def)

lemma delete_selection_cases:
  obtains (same) "delete_selection buf = (False, buf)"
  | (del) ls start where "ls \<noteq> []" "0 \<le> start"
      "delete_selection buf =
         (True, clear_selection (buf\<lparr>lines := ls, cursor_y := min start (int (length ls) - 1),
                                    cursor_x := 0, preferred_x := 0, dirty := True\<rparr>))"
proof (cases "selection_range buf")
  case None
  then have "delete_selection buf = (False, buf)"
    by (simp add: delete_selection_def)
  then show ?thesis by (rule same)
next
  case (Some r)
  obtain s0 e0 where r: "r = (s0, e0)" by (cases r)
  let ?n = "int (length (lines buf)) - 1"
  let ?s = "max 0 (min s0 ?n)"
  let ?e = "max 0 (min e0 ?n)"
  show ?thesis
  proof (cases "?s > ?e")
    case True
    with Some r have "delete_selection buf = (False, buf)"
      by (simp add: delete_selection_def Let_def)
    then show ?thesis by (rule same)
  next
    case False
    let ?ls1 = "del_slice (lines buf) ?s (?e + 1)"
    let ?ls2 = "if ?ls1 = [] then [[]] else ?ls1"
    have ne: "?ls2 \<noteq> []" by simp
    have nn: "0 \<le> ?s" by simp
    from Some r False have
      "delete_selection buf =
         (True, clear_selection (buf\<lparr>lines := ?ls2, cursor_y := min ?s (int (length ?ls2) - 1),
                                    cursor_x := 0, preferred_x := 0, dirty := True\<rparr>))"
      by (simp add: delete_selection_def Let_def)
    with ne nn show ?thesis by (rule del)
  qed
qed

lemma delete_selection_inv:
  assumes "buffer_inv buf"
  shows "buffer_inv (snd (delete_selection buf))"
proof (cases buf rule: delete_selection_cases)
  case same
  with assms show ?thesis by simp
next
  case (del ls start)
  from del(1) have "0 < length ls" by simp
  with del(2) have "0 \<le> min start (int (length ls) - 1)" "min start (int (length ls) - 1) < int (length ls)"
    by linarith+
  with del show ?thesis
    by (simp add: buffer_inv_def clear_selection_def)
qed

lemma drop_fixed_selection_inv: "buffer_inv buf \<Longrightarrow> buffer_inv (drop_fixed_selection buf)"
  by (simp add: drop_fixed_selection_def delete_selection_inv)

lemma buffer_invD:
  assumes "buffer_inv b"
  shows "lines b \<noteq> []" "0 \<le> cursor_y b" "cursor_y b < int (length (lines b))"
    "nat (cursor_y b) < length (lines b)"
    "0 \<le> cursor_x b" "cursor_x b \<le> int (length (lines b ! nat (cursor_y b)))"
    "nat (cursor_x b) \<le> length (lines b ! nat (cursor_y b))"
  using assms by (auto simp: buffer_inv_def)

lemma insert_char_inv:
  assumes "buffer_inv buf"
  shows "\<exists>b. insert_char buf ch = Inr b \<and> buffer_inv b"
proof -
  let ?b = "drop_fixed_selection buf"
  from assms have "buffer_inv ?b" by (rule drop_fixed_selection_inv)
  note d = buffer_invD [OF this]
  from d show ?thesis
    by (simp add: insert_char_def Let_def buffer_inv_def py_get_inb py_set_inb slice_inb)
qed

lemma backspace_inv:
  assumes "buffer_inv buf"
  shows "\<exists>b. backspace buf = Inr b \<and> buffer_inv b"
proof (cases "fixed_selection buf")
  case True
  with assms show ?thesis
    by (simp add: backspace_def delete_selection_inv)
next
  case nosel: False
  note d = buffer_invD [OF assms]
  show ?thesis
  proof (cases "cursor_x buf > 0")
    case True
    with nosel d show ?thesis
      by (simp add: backspace_def buffer_inv_def py_get_inb py_set_inb slice_inb)
  next
    case x0: False
    show ?thesis
    proof (cases "cursor_y buf = 0")
      case True
      with nosel x0 assms show ?thesis
        by (simp add: backspace_def)
    next
      case False
      with d have y: "0 \<le> cursor_y buf - 1" "cursor_y buf - 1 < int (length (lines buf))"
        by simp_all
      have n: "nat (cursor_y buf) = Suc (nat (cursor_y buf - 1))"
        using d False by linarith
      from d n have m: "nat (cursor_y buf - 1) < length (lines buf)" by linarith
      from nosel x0 False y n d m show ?thesis
        by (simp add: backspace_def buffer_inv_def py_get_inb py_set_inb py_pop_inb nth_append)
    qed
  qed
qed

lemma delete_forward_inv:
  assumes "buffer_inv buf"
  shows "\<exists>b. delete_forward buf = Inr b \<and> buffer_inv b"
proof (cases "fixed_selection buf")
  case True
  with assms show ?thesis
    by (simp add: delete_forward_def delete_selection_inv)
next
  case nosel: False
  note d = buffer_invD [OF assms]
  show ?thesis
  proof (cases "cursor_x buf < int (length (lines buf ! nat (cursor_y buf)))")
    case True
    with nosel d show ?thesis
      by (simp add: delete_forward_def buffer_inv_def py_get_inb py_set_inb slice_inb)
  next
    case xe: False
    show ?thesis
    proof (cases "cursor_y buf \<ge> int (length (lines buf)) - 1")
      case True
      with nosel xe assms d show ?thesis
        by (simp add: delete_forward_def py_get_inb)
    next
      case False
      then have y1: "0 \<le> cursor_y buf + 1" "cursor_y buf + 1 < int (length (lines buf))"
        using d by simp_all
      have n: "nat (cursor_y buf + 1) = Suc (nat (cursor_y buf))"
        using d by linarith
      from nosel xe False d y1 n show ?thesis
        by (simp add: delete_forward_def buffer_inv_def py_get_inb py_set_inb py_pop_inb nth_append)
    qed
  qed
qed

lemma apply_op_inv:
  assumes "buffer_inv buf"
  shows "\<exists>b. apply_op buf op = Inr b \<and> buffer_inv b"
  using assms by (cases op) (simp_all add: insert_char_inv backspace_inv delete_forward_inv)

lemma apply_ops_inv:
  assumes "buffer_inv buf"
  shows "\<exists>b. apply_ops buf ops = Inr b \<and> buffer_inv b"
  using assms
proof (induction ops arbitrary: buf)
  case Nil
  then show ?case by simp
next
  case (Cons op ops)
  from apply_op_inv [OF Cons.prems] obtain b1 where b1: "apply_op buf op = Inr b1" "buffer_inv b1"
    by blast
  from Cons.IH [OF b1(2)] b1(1) show ?case by simp
qed

text \<open>
  C1. From a buffer that satisfies the invariants of the data model, every finite sequence
  of \<open>insert_char\<close>, \<open>backspace\<close> and \<open>delete_forward\<close> runs without an exception and ends
  in a buffer with at least one line whose cursor is inside the text.
\<close>

theorem edit_sequence_keeps_invariants:
  assumes "buffer_inv buf"
  shows "\<exists>b. apply_ops buf ops = Inr b \<and> lines b \<noteq> []
           \<and> 0 \<le> cursor_y b \<and> cursor_y b < int (length (lines b))
           \<and> 0 \<le> cursor_x b \<and> cursor_x b \<le> int (length (lines b ! nat (cursor_y b)))"
proof -
  from apply_ops_inv [OF assms] obtain b where "apply_ops buf ops = Inr b" "buffer_inv b"
    by blast
  then show ?thesis
    by (auto simp: buffer_inv_def)
qed

theorem edit_sequence_keeps_invariants_witness:
  "buffer_inv edit_example
   \<and> (\<exists>b. apply_ops edit_example [Backspace, InsertChar (str ''x''), DeleteForward] = Inr b
          \<and> lines b \<noteq> [] \<and> 0 \<le> cursor_y b \<and> cursor_y b < int (length (lines b))
          \<and> 0 \<le> cursor_x b \<and> cursor_x b \<le> int (length (lines b ! nat (cursor_y b))))"
proof -
  have inv: "buffer_inv edit_example"
    by (simp add: buffer_inv_def edit_example_def)
  from inv edit_sequence_keeps_invariants [OF inv] show ?thesis
    by blast
qed

section \<open>Newline\<close>

text \<open>Evaluating the definitions on concrete buffers.\<close>

lemma replicate_numeral: "replicate (numeral k) x = x # replicate (pred_numeral k) x"
  by (simp add: numeral_eq_Suc)

lemmas eval_defs =
  replicate_numeral
  newline_def backspace_def drop_fixed_selection_def fixed_selection_def has_selection_def
  py_get_def py_set_def py_pop_def py_index_def slice_to_def slice_from_def py_clip_def
  py_insert_def lstrip_chars_def rstrip_def is_space_def endswith_def spaces_def
  leading_spaces_def buffer_inv_def
  SPACE_def COLON_def LF_def CR_def TAB_def INDENT_WIDTH_def Let_def

lemma str_simps [simp]: "str [] = []" "str (c # cs) = of_char c # str cs"
  by (simp_all add: str_def)

lemma leading_spaces_lstrip:
  "int (length s) - int (length (lstrip_chars [SPACE] s)) = int (leading_spaces s)"
proof -
  have "length (takeWhile (\<lambda>c. c = SPACE) s) + length (dropWhile (\<lambda>c. c = SPACE) s) = length s"
    by (metis length_append takeWhile_dropWhile_id)
  then show ?thesis
    by (simp add: lstrip_chars_def leading_spaces_def)
qed

lemma lstrip_no_leading_space: "leading_spaces (lstrip_chars [SPACE] s) = 0"
  by (induction s) (simp_all add: leading_spaces_def lstrip_chars_def)

lemma takeWhile_replicate_append:
  "P c \<Longrightarrow> takeWhile P (replicate k c @ t) = replicate k c @ takeWhile P t"
  by (induction k) simp_all

lemma leading_spaces_spaces:
  "0 \<le> n \<Longrightarrow> leading_spaces t = 0 \<Longrightarrow> int (leading_spaces (spaces n @ t)) = n"
  by (simp add: leading_spaces_def spaces_def takeWhile_replicate_append)

lemma leading_spaces_take:
  "leading_spaces s \<le> k \<Longrightarrow> leading_spaces (take k s) = leading_spaces s"
proof (induction s arbitrary: k)
  case Nil
  then show ?case by simp
next
  case (Cons c s)
  then show ?case
    by (cases k) (auto simp: leading_spaces_def)
qed

lemma py_insert_after_update:
  assumes "k < length ls"
  shows "py_insert (ls[k := x]) (int k + 1) v = take k ls @ [x, v] @ drop (Suc k) ls"
proof -
  from assms have "py_clip (int k + 1) (length ls) = Suc k"
    by (simp add: py_clip_def)
  moreover from assms have "take (Suc k) (ls[k := x]) = take k ls @ [x]"
    by (simp add: take_Suc_conv_app_nth)
  ultimately show ?thesis
    by (simp add: py_insert_def)
qed

lemma newline_result:
  assumes "buffer_inv buf" and "\<not> fixed_selection buf"
  shows "newline buf =
     Inr (buf\<lparr>lines :=
               take (nat (cursor_y buf)) (lines buf)
               @ [take (nat (cursor_x buf)) (lines buf ! nat (cursor_y buf)),
                  spaces (int (leading_spaces (take (nat (cursor_x buf)) (lines buf ! nat (cursor_y buf))))
                          + (if endswith (rstrip (take (nat (cursor_x buf)) (lines buf ! nat (cursor_y buf)))) [COLON]
                             then INDENT_WIDTH else 0))
                  @ lstrip_chars [SPACE] (drop (nat (cursor_x buf)) (lines buf ! nat (cursor_y buf)))]
               @ drop (Suc (nat (cursor_y buf))) (lines buf),
             cursor_y := cursor_y buf + 1,
             cursor_x := int (leading_spaces (take (nat (cursor_x buf)) (lines buf ! nat (cursor_y buf))))
                          + (if endswith (rstrip (take (nat (cursor_x buf)) (lines buf ! nat (cursor_y buf)))) [COLON]
                             then INDENT_WIDTH else 0),
             preferred_x := int (leading_spaces (take (nat (cursor_x buf)) (lines buf ! nat (cursor_y buf))))
                          + (if endswith (rstrip (take (nat (cursor_x buf)) (lines buf ! nat (cursor_y buf)))) [COLON]
                             then INDENT_WIDTH else 0),
             dirty := True\<rparr>)"
proof -
  note d = buffer_invD [OF assms(1)]
  have ins: "py_insert ((lines buf)[nat (cursor_y buf) := x]) (cursor_y buf + 1) v
             = take (nat (cursor_y buf)) (lines buf) @ [x, v] @ drop (Suc (nat (cursor_y buf))) (lines buf)"
    for x v
    using py_insert_after_update [OF d(4), of x v] d(2) by simp
  from d assms(2) show ?thesis
    unfolding newline_def drop_fixed_selection_def Let_def
    by (simp add: py_get_inb py_set_inb slice_inb ins leading_spaces_lstrip)
qed

lemma has_selection_fixed: "\<not> has_selection buf \<Longrightarrow> \<not> fixed_selection buf"
  by (simp add: fixed_selection_def)

lemma split_list_ops:
  assumes "k < length ls"
  shows "py_get (take k ls @ a # b # drop (Suc k) ls) (int k) = Inr a"
    and "py_get (take k ls @ a # b # drop (Suc k) ls) (int k + 1) = Inr b"
    and "py_set (take k ls @ a # b # drop (Suc k) ls) (int k) x
         = Inr (take k ls @ x # b # drop (Suc k) ls)"
    and "py_pop (take k ls @ x # b # drop (Suc k) ls) (int k + 1)
         = Inr (take k ls @ x # drop (Suc k) ls)"
proof -
  from assms have len: "length (take k ls) = k" by simp
  from assms have m: "min (length ls) k = k" by simp
  have idx: "py_index (int k) (length (take k ls @ u # v # drop (Suc k) ls)) = Some k"
    "py_index (int k + 1) (length (take k ls @ u # v # drop (Suc k) ls)) = Some (Suc k)" for u v
    using assms by (simp_all add: py_index_def nat_add_distrib)
  show "py_get (take k ls @ a # b # drop (Suc k) ls) (int k) = Inr a"
    unfolding py_get_def idx by (simp add: nth_append m)
  show "py_get (take k ls @ a # b # drop (Suc k) ls) (int k + 1) = Inr b"
    unfolding py_get_def idx by (simp add: nth_append m)
  show "py_set (take k ls @ a # b # drop (Suc k) ls) (int k) x
         = Inr (take k ls @ x # b # drop (Suc k) ls)"
    unfolding py_set_def idx by (simp add: list_update_append m)
  have "take (Suc k) (take k ls @ x # b # drop (Suc k) ls) = take k ls @ [x]"
    by (simp add: m)
  moreover have "drop (Suc (Suc k)) (take k ls @ x # b # drop (Suc k) ls) = drop (Suc k) ls"
    by (simp add: m)
  ultimately show "py_pop (take k ls @ x # b # drop (Suc k) ls) (int k + 1)
         = Inr (take k ls @ x # drop (Suc k) ls)"
    unfolding py_pop_def idx by simp
qed

text \<open>
  C8 (as amended). For a buffer that satisfies the invariants and has no selection,
  \<open>newline\<close> replaces the current line by the text before the cursor and puts after it a new
  line made of \<open>n\<close> spaces and the text after the cursor without its leading spaces; the
  other lines are unchanged and the cursor lands on the new line at column \<open>n\<close>, which is
  the new line's leading indentation. \<open>n\<close> is the number of leading spaces of the text
  before the cursor, plus one indent unit exactly when that text, with trailing whitespace
  trimmed, ends with a colon. The text before the cursor has the leading indentation of the
  whole line whenever the cursor is at or after that indentation.
\<close>

theorem newline_splits_and_indents:
  fixes buf :: buffer
  defines "line \<equiv> lines buf ! nat (cursor_y buf)"
  defines "before \<equiv> take (nat (cursor_x buf)) line"
  defines "after \<equiv> drop (nat (cursor_x buf)) line"
  defines "n \<equiv> int (leading_spaces before)
                + (if endswith (rstrip before) [COLON] then INDENT_WIDTH else 0)"
  assumes "buffer_inv buf" and "\<not> has_selection buf"
  shows "\<exists>b. newline buf = Inr b
           \<and> lines b = take (nat (cursor_y buf)) (lines buf)
                        @ [before, spaces n @ lstrip_chars [SPACE] after]
                        @ drop (Suc (nat (cursor_y buf))) (lines buf)
           \<and> cursor_y b = cursor_y buf + 1 \<and> cursor_x b = n
           \<and> int (leading_spaces (spaces n @ lstrip_chars [SPACE] after)) = n
           \<and> (leading_spaces line \<le> nat (cursor_x buf) \<longrightarrow>
                leading_spaces before = leading_spaces line)"
proof -
  have n0: "0 \<le> n"
    by (simp add: n_def INDENT_WIDTH_def)
  have ind: "int (leading_spaces (spaces n @ lstrip_chars [SPACE] after)) = n"
    using n0 by (rule leading_spaces_spaces) (rule lstrip_no_leading_space)
  have keep: "leading_spaces line \<le> nat (cursor_x buf) \<longrightarrow> leading_spaces before = leading_spaces line"
    by (simp add: before_def leading_spaces_take)
  from newline_result [OF assms(5) has_selection_fixed [OF assms(6)]] ind keep
  show ?thesis
    by (simp add: line_def before_def after_def n_def)
qed

theorem newline_splits_and_indents_witness:
  "buffer_inv colon_example \<and> \<not> has_selection colon_example
   \<and> (\<exists>b. newline colon_example = Inr b \<and> lines b = [str ''a:'', str ''    '']
          \<and> cursor_y b = 1 \<and> cursor_x b = 4)"
proof -
  have inv: "buffer_inv colon_example"
    by (simp add: colon_example_def buffer_inv_def)
  have nosel: "\<not> has_selection colon_example"
    by (simp add: colon_example_def has_selection_def)
  from newline_splits_and_indents [OF inv nosel] obtain b where
    "newline colon_example = Inr b" "cursor_y b = cursor_y colon_example + 1"
    "lines b = take (nat (cursor_y colon_example)) (lines colon_example)
                        @ [take (nat (cursor_x colon_example)) (lines colon_example ! nat (cursor_y colon_example)), 
      spaces (int (leading_spaces (take (nat (cursor_x colon_example)) (lines colon_example ! nat (cursor_y colon_example))))
                + (if endswith (rstrip (take (nat (cursor_x colon_example)) (lines colon_example ! nat (cursor_y colon_example)))) [COLON] then INDENT_WIDTH else 0)) @ lstrip_chars [SPACE] (drop (nat (cursor_x colon_example)) (lines colon_example ! nat (cursor_y colon_example)))]
                        @ drop (Suc (nat (cursor_y colon_example))) (lines colon_example)"
    "cursor_x b = int (leading_spaces (take (nat (cursor_x colon_example)) (lines colon_example ! nat (cursor_y colon_example))))
                + (if endswith (rstrip (take (nat (cursor_x colon_example)) (lines colon_example ! nat (cursor_y colon_example)))) [COLON] then INDENT_WIDTH else 0)"
    by blast
  then have "newline colon_example = Inr b \<and> lines b = [str ''a:'', str ''    '']
          \<and> cursor_y b = 1 \<and> cursor_x b = 4"
    by (simp add: colon_example_def eval_defs)
  with inv nosel show ?thesis by blast
qed

text \<open>
  With the cursor inside the indentation the new line is indented less than the original
  line: splitting four spaces and \<open>x\<close> at column 2 gives a new line with two leading
  spaces, and no colon is involved.
\<close>

theorem newline_indent_counterexample:
  "newline indent_example =
     Inr (indent_example\<lparr>lines := [str ''  '', str ''  x''], cursor_y := 1, cursor_x := 2,
                         preferred_x := 2, dirty := True\<rparr>)
   \<and> leading_spaces (str ''  x'') = 2
   \<and> leading_spaces (lines indent_example ! nat (cursor_y indent_example)) = 4
   \<and> \<not> endswith (rstrip (slice_to (lines indent_example ! nat (cursor_y indent_example))
                          (cursor_x indent_example))) [COLON]"
  by (simp add: indent_example_def eval_defs)

text \<open>
  C3 (as amended). For a buffer that satisfies the invariants and has no selection, when
  the text before the cursor does not start with a space and, with trailing whitespace
  trimmed, does not end with a colon, and the text after the cursor does not start with a
  space, \<open>newline\<close> followed by \<open>backspace\<close> gives back the lines and the cursor position:
  the buffer is the original one, marked dirty, with the preferred column at the cursor.
\<close>

theorem newline_backspace_round_trip:
  fixes buf :: buffer
  defines "line \<equiv> lines buf ! nat (cursor_y buf)"
  defines "before \<equiv> take (nat (cursor_x buf)) line"
  defines "after \<equiv> drop (nat (cursor_x buf)) line"
  assumes "buffer_inv buf" and "\<not> has_selection buf"
    and "leading_spaces before = 0" and "\<not> endswith (rstrip before) [COLON]"
    and "leading_spaces after = 0"
  shows "and_then (newline buf) backspace = Inr (buf\<lparr>preferred_x := cursor_x buf, dirty := True\<rparr>)"
proof -
  note d = buffer_invD [OF assms(4)]
  let ?k = "nat (cursor_y buf)"
  have nosel: "\<not> fixed_selection buf"
    using assms(5) by (rule has_selection_fixed)
  have after: "lstrip_chars [SPACE] after = after"
    using assms(8) by (cases after) (auto simp: leading_spaces_def lstrip_chars_def split: if_splits)
  let ?L = "take ?k (lines buf) @ [before, after] @ drop (Suc ?k) (lines buf)"
  let ?b1 = "buf\<lparr>lines := ?L, cursor_y := cursor_y buf + 1, cursor_x := 0, preferred_x := 0, dirty := True\<rparr>"
  have nl: "newline buf = Inr ?b1"
    using newline_result [OF assms(4) nosel] assms(6,7) after
    by (simp add: line_def before_def after_def spaces_def)
  have nosel1: "\<not> fixed_selection ?b1"
    using nosel by (simp add: fixed_selection_def has_selection_def)
  have k: "int ?k = cursor_y buf" using d by simp
  note ops = split_list_ops [OF d(4), unfolded k]
  have len: "int (length before) = cursor_x buf"
    using d by (simp add: before_def line_def)
  have whole: "take ?k (lines buf) @ (before @ after) # drop (Suc ?k) (lines buf) = lines buf"
    using d(4) by (simp add: before_def after_def line_def id_take_nth_drop [symmetric])
  have "backspace ?b1 = Inr (buf\<lparr>preferred_x := cursor_x buf, dirty := True\<rparr>)"
    using nosel1 d(2) unfolding backspace_def
    by (simp add: ops len whole)
  with nl show ?thesis by simp
qed

theorem newline_backspace_round_trip_witness:
  "buffer_inv plain_example \<and> \<not> has_selection plain_example
   \<and> and_then (newline plain_example) backspace = Inr (plain_example\<lparr>dirty := True\<rparr>)
   \<and> lines plain_example = [str ''ab''] \<and> cursor_x plain_example = 1"
proof -
  have inv: "buffer_inv plain_example"
    by (simp add: plain_example_def buffer_inv_def)
  have nosel: "\<not> has_selection plain_example"
    by (simp add: plain_example_def has_selection_def)
  have "and_then (newline plain_example) backspace
        = Inr (plain_example\<lparr>preferred_x := cursor_x plain_example, dirty := True\<rparr>)"
    by (rule newline_backspace_round_trip [OF inv nosel])
       (simp_all add: plain_example_def eval_defs)
  with inv nosel show ?thesis
    by (simp add: plain_example_def)
qed

text \<open>
  After a colon the new line gets four spaces and \<open>backspace\<close> removes one of them: from
  the single line \<open>a:\<close> with the cursor at its end the two operations leave two lines and
  the cursor on the second.
\<close>

theorem newline_backspace_counterexample:
  "and_then (newline colon_example) backspace =
     Inr (colon_example\<lparr>lines := [str ''a:'', str ''   ''], cursor_y := 1, cursor_x := 3,
                        preferred_x := 3, dirty := True\<rparr>)
   \<and> lines colon_example = [str ''a:''] \<and> cursor_y colon_example = 0
   \<and> cursor_x colon_example = 2 \<and> \<not> has_selection colon_example
   \<and> buffer_inv colon_example"
  by (simp add: colon_example_def eval_defs)

section \<open>Saving and loading again\<close>

lemma is_linebreak_LF_CR: "is_linebreak LF" "is_linebreak CR" "LF \<noteq> CR"
  by (simp_all add: is_linebreak_def LF_def CR_def)

lemma splitlines_from_plain:
  assumes "\<forall>c\<in>set l. \<not> is_linebreak c"
  shows "splitlines_from cur l = (if cur @ l = [] then [] else [cur @ l])"
  using assms
proof (induction l arbitrary: cur)
  case Nil
  then show ?case by simp
next
  case (Cons c l)
  from Cons.prems have c: "\<not> is_linebreak c" "c \<noteq> CR"
    using is_linebreak_LF_CR by auto
  from Cons.prems have "\<forall>c\<in>set l. \<not> is_linebreak c" by simp
  from Cons.IH [OF this, of "cur @ [c]"] c show ?case by simp
qed

lemma splitlines_from_line:
  assumes "\<forall>c\<in>set l. \<not> is_linebreak c"
  shows "splitlines_from cur (l @ LF # rest) = (cur @ l) # splitlines_from [] rest"
  using assms
proof (induction l arbitrary: cur)
  case Nil
  then show ?case using is_linebreak_LF_CR by simp
next
  case (Cons c l)
  from Cons.prems have c: "\<not> is_linebreak c" "c \<noteq> CR"
    using is_linebreak_LF_CR by auto
  from Cons.prems have "\<forall>c\<in>set l. \<not> is_linebreak c" by simp
  from Cons.IH [OF this, of "cur @ [c]"] c show ?case by simp
qed

lemma splitlines_join:
  assumes "ls \<noteq> []" and "\<forall>l\<in>set ls. \<forall>c\<in>set l. \<not> is_linebreak c"
  shows "splitlines (py_join [LF] ls) = (if last ls = [] then butlast ls else ls)"
  using assms
proof (induction ls rule: list_nonempty_induct)
  case (single x)
  then show ?case by (simp add: splitlines_def splitlines_from_plain)
next
  case (cons x xs)
  from cons.hyps obtain y ys where xs: "xs = y # ys" by (cases xs) auto
  from cons.prems have x: "\<forall>c\<in>set x. \<not> is_linebreak c" by simp
  from cons.prems have "\<forall>l\<in>set xs. \<forall>c\<in>set l. \<not> is_linebreak c" by simp
  with cons.IH have "splitlines (py_join [LF] xs) = (if last xs = [] then butlast xs else xs)"
    by simp
  then show ?case
    using splitlines_from_line [OF x, of "[]" "py_join [LF] xs"] cons.hyps
    by (simp add: splitlines_def xs)
qed

lemma endswith_single: "endswith s [c] = (s \<noteq> [] \<and> last s = c)"
  by (cases s rule: rev_cases) (simp_all add: endswith_def)

lemma endswith_join:
  assumes "ls \<noteq> []" and "\<forall>l\<in>set ls. LF \<notin> set l"
  shows "endswith (py_join [LF] ls) [LF] \<longleftrightarrow> (2 \<le> length ls \<and> last ls = [])"
  using assms
proof (induction ls rule: list_nonempty_induct)
  case (single x)
  have "\<not> endswith x [LF]"
  proof
    assume "endswith x [LF]"
    then have "x \<noteq> []" "last x = LF"
      by (simp_all add: endswith_single)
    then have "LF \<in> set x"
      by (metis last_in_set)
    with single show False by simp
  qed
  then show ?case by simp
next
  case (cons x xs)
  from cons.hyps obtain y ys where xs: "xs = y # ys" by (cases xs) auto
  let ?J = "py_join [LF] xs"
  from cons.prems have "\<forall>l\<in>set xs. LF \<notin> set l" by simp
  with cons.IH have ih: "endswith ?J [LF] \<longleftrightarrow> (2 \<le> length xs \<and> last xs = [])"
    by simp
  have J: "?J = [] \<longleftrightarrow> (y = [] \<and> ys = [])"
    unfolding xs by (cases ys) simp_all
  have "endswith (py_join [LF] (x # xs)) [LF] \<longleftrightarrow> (?J = [] \<or> endswith ?J [LF])"
    by (simp add: endswith_single xs)
  also have "\<dots> \<longleftrightarrow> ((y = [] \<and> ys = []) \<or> (2 \<le> length xs \<and> last xs = []))"
    using ih J by simp
  also have "\<dots> \<longleftrightarrow> last xs = []"
    unfolding xs by (cases ys) auto
  finally show ?case using cons.hyps by (simp add: xs)
qed

lemma read_text_plain: "CR \<notin> set s \<Longrightarrow> read_text s = s"
  by (induction s rule: read_text.induct) auto

lemma set_py_join: "set (py_join sep ls) \<subseteq> set sep \<union> \<Union> (set ` set ls)"
  by (induction sep ls rule: py_join.induct) auto

lemma load_joined_lines:
  assumes "ls \<noteq> []" and "\<forall>l\<in>set ls. \<forall>c\<in>set l. \<not> is_linebreak c"
  shows "load_file (py_join [LF] ls) = ls"
proof -
  let ?text = "py_join [LF] ls"
  from assms(2) have noLF: "\<forall>l\<in>set ls. LF \<notin> set l" and noCR: "\<forall>l\<in>set ls. CR \<notin> set l"
    using is_linebreak_LF_CR by auto
  have "CR \<notin> set ?text"
    using set_py_join [of "[LF]" ls] noCR is_linebreak_LF_CR(3) by auto
  then have rd: "read_text ?text = ?text" by (rule read_text_plain)
  note sp = splitlines_join [OF assms]
  note en = endswith_join [OF assms(1) noLF]
  show ?thesis
  proof (cases "last ls = []")
    case True
    show ?thesis
    proof (cases "2 \<le> length ls")
      case True
      with \<open>last ls = []\<close> assms(1) have "butlast ls @ [[]] = ls"
        by (metis append_butlast_last_id)
      with True \<open>last ls = []\<close> show ?thesis
        by (simp add: load_file_def rd sp en)
    next
      case False
      with assms(1) have "length ls = 1" by (cases ls) (auto simp: Suc_le_eq)
      with \<open>last ls = []\<close> have "ls = [[]]" by (cases ls) auto
      then show ?thesis
        by (simp add: load_file_def splitlines_def endswith_def)
    qed
  next
    case False
    with assms(1) show ?thesis
      by (simp add: load_file_def rd sp en)
  qed
qed

lemma write_joined_lines:
  assumes "\<forall>l\<in>set ls. \<forall>c\<in>set l. utf8_encodable c"
  shows "save_file ls = Inr (py_join [LF] ls)"
proof -
  have "utf8_encodable LF"
    by (simp add: utf8_encodable_def LF_def)
  with assms have "\<forall>c\<in>set (py_join [LF] ls). utf8_encodable c"
    using set_py_join [of "[LF]" ls] by auto
  then show ?thesis
    by (simp add: save_file_def write_text_def list_all_iff)
qed

text \<open>
  C2 (as amended). For every non-empty list of lines none of which contains a character
  at which \<open>splitlines\<close> ends a line or a code point that UTF-8 cannot encode (a
  surrogate), saving the lines returns and loading the written text gives the same list
  of lines.
\<close>

theorem load_save_round_trip:
  assumes "ls \<noteq> []"
    and "\<forall>l\<in>set ls. \<forall>c\<in>set l. \<not> is_linebreak c \<and> utf8_encodable c"
  shows "save_then_load ls = Inr ls"
proof -
  from assms(2) have "\<forall>l\<in>set ls. \<forall>c\<in>set l. utf8_encodable c" by blast
  then have "save_file ls = Inr (py_join [LF] ls)" by (rule write_joined_lines)
  moreover from assms(2) have "\<forall>l\<in>set ls. \<forall>c\<in>set l. \<not> is_linebreak c" by blast
  with assms(1) have "load_file (py_join [LF] ls) = ls" by (rule load_joined_lines)
  ultimately show ?thesis
    by (simp add: save_then_load_def)
qed

theorem load_save_round_trip_witness:
  "[str ''ab'', str ''c'', []] \<noteq> []
   \<and> save_then_load [str ''ab'', str ''c'', []] = Inr [str ''ab'', str ''c'', []]"
  using load_save_round_trip [of "[str ''ab'', str ''c'', []]"]
  by (simp add: is_linebreak_def utf8_encodable_def)

text \<open>
  A form feed (code point 12) is not a line feed, so the written text is one line; loading
  splits it there: the line \<open>a\<close>, form feed, \<open>b\<close> comes back as the two lines \<open>a\<close> and \<open>b\<close>.
  And the line \<open>a\<close>, surrogate D800, \<open>b\<close> cannot be written: saving raises
  \<open>UnicodeEncodeError\<close> and leaves an empty file, which loads as one empty line.
\<close>

theorem load_save_round_trip_counterexample:
  "save_then_load [str ''a'' @ [12] @ str ''b''] = Inr [str ''a'', str ''b'']
   \<and> [str ''a'' @ [12] @ str ''b''] \<noteq> [str ''a'', str ''b'']
   \<and> LF \<notin> set (str ''a'' @ [12] @ str ''b'')
   \<and> save_then_load [str ''a'' @ [55296] @ str ''b''] = Inl UnicodeEncodeError
   \<and> load_file (file_after_save [str ''a'' @ [55296] @ str ''b'']) = [[]]"
  by (simp add: save_then_load_def file_after_save_def save_file_def write_text_def
      utf8_encodable_def load_file_def splitlines_def is_linebreak_def CR_def LF_def
      endswith_def)

section \<open>Searching leaves the text alone\<close>

lemma py_index_less: "py_index i n = Some k \<Longrightarrow> k < n"
  by (auto simp: py_index_def split: if_splits)

lemma store_back_frame:
  assumes "py_get xs i = Inr b" and "py_set xs i b' = Inr ys" and "f b' = f b"
  shows "map f ys = map f xs"
proof -
  from assms(1) obtain k where k: "py_index i (length xs) = Some k" "b = xs ! k"
    by (auto simp: py_get_def split: option.splits)
  with assms(2) have "ys = xs[k := b']"
    by (simp add: py_set_def)
  moreover from k(1) have "k < length xs"
    by (rule py_index_less)
  then have "(map f xs)[k := f (xs ! k)] = map f xs"
    by (metis list_update_id nth_map)
  ultimately show ?thesis
    using k assms(3) by (simp add: map_update)
qed

lemma store_back_defined:
  assumes "py_get xs i = Inr b"
  shows "\<exists>ys. py_set xs i b' = Inr ys"
  using assms by (auto simp: py_get_def py_set_def split: option.splits)

lemma move_to_hit_frame:
  "lines (move_to_hit b y x) = lines b" "dirty (move_to_hit b y x) = dirty b"
  "selecting (move_to_hit b y x) = selecting b"
  "selection_start (move_to_hit b y x) = selection_start b"
  "selection_end (move_to_hit b y x) = selection_end b"
  by (simp_all add: move_to_hit_def)

lemma find_next_cases:
  assumes "find_next st = Inr st'"
  obtains (status) msg where "st' = set_status st msg"
  | (moved) b y x bs msg where "current_buffer st = Inr b"
      "py_set (buffers st) (active st) (move_to_hit b y x) = Inr bs"
      "st' = set_status (st\<lparr>buffers := bs\<rparr>) msg"
  using assms
  by (auto simp: find_next_def and_then_def store_current_def
      split: sum.splits option.splits if_splits prod.splits)

lemma find_next_frame:
  assumes "find_next st = Inr st'"
    and "\<And>b y x. f (move_to_hit b y x) = f b"
  shows "map f (buffers st') = map f (buffers st)"
  using assms(1)
proof (cases rule: find_next_cases)
  case (status msg)
  then show ?thesis by (simp add: set_status_def)
next
  case (moved b y x bs msg)
  from moved(1) have "py_get (buffers st) (active st) = Inr b"
    by (simp add: current_buffer_def)
  from store_back_frame [OF this moved(2), of f] assms(2) moved(3) show ?thesis
    by (simp add: set_status_def)
qed

lemma scan_lines_defined:
  assumes "\<forall>i\<in>set idxs. 0 \<le> i \<and> i < int (length ls)"
  shows "\<exists>r. scan_lines ls query col idxs = Inr r"
  using assms
proof (induction idxs)
  case Nil
  then show ?case by simp
next
  case (Cons i idxs)
  then have "py_get ls i = Inr (ls ! nat i)"
    by (simp add: py_get_inb)
  with Cons show ?case by simp
qed

lemma find_next_defined:
  assumes "current_buffer st = Inr b" and "buffer_inv b"
  shows "\<exists>st'. find_next st = Inr st'"
proof -
  note d = buffer_invD [OF assms(2)]
  from assms(1) have get: "py_get (buffers st) (active st) = Inr b"
    by (simp add: current_buffer_def)
  have st: "\<exists>s. store_current st b' = Inr s" for b'
    using store_back_defined [OF get, of b'] by (auto simp: store_current_def)
  have "\<forall>i\<in>set [cursor_y b .. int (length (lines b)) - 1]. 0 \<le> i \<and> i < int (length (lines b))"
    using d by auto
  from scan_lines_defined [OF this] obtain r1 where
    r1: "scan_lines (lines b) (last_search st) (\<lambda>i. if i = cursor_y b then cursor_x b + 1 else 0)
           [cursor_y b .. int (length (lines b)) - 1] = Inr r1"
    by blast
  have "\<forall>i\<in>set [0 .. cursor_y b]. 0 \<le> i \<and> i < int (length (lines b))"
    using d by auto
  from scan_lines_defined [OF this] obtain r2 where
    r2: "scan_lines (lines b) (last_search st) (\<lambda>i. 0) [0 .. cursor_y b] = Inr r2"
    by blast
  show ?thesis
  proof (cases r1)
    case (Some hit)
    obtain y x where "hit = (y, x)" by (cases hit)
    with Some r1 st [of "move_to_hit b y x"] assms(1) show ?thesis
      by (auto simp: find_next_def)
  next
    case None
    show ?thesis
    proof (cases r2)
      case (Some hit)
      obtain y x where "hit = (y, x)" by (cases hit)
      with Some None r1 r2 st [of "move_to_hit b y x"] assms(1) show ?thesis
        by (auto simp: find_next_def)
    next
      case n2: None
      with None r1 r2 assms(1) show ?thesis
        by (simp add: find_next_def)
    qed
  qed
qed

text \<open>
  C9. With a non-empty search term, \<open>find_next\<close> leaves the lines, the dirty flag and the
  selection state of every buffer as they were, whether it finds the term (moving the
  cursor) or not; and it returns whenever the current buffer satisfies the invariants.
\<close>

theorem find_next_keeps_text:
  assumes "last_search st \<noteq> []"
  shows "(\<forall>st'. find_next st = Inr st' \<longrightarrow>
            map lines (buffers st') = map lines (buffers st)
          \<and> map dirty (buffers st') = map dirty (buffers st)
          \<and> map selecting (buffers st') = map selecting (buffers st)
          \<and> map selection_start (buffers st') = map selection_start (buffers st)
          \<and> map selection_end (buffers st') = map selection_end (buffers st))
       \<and> (\<forall>b. current_buffer st = Inr b \<and> buffer_inv b \<longrightarrow> (\<exists>st'. find_next st = Inr st'))"
  using find_next_frame [of st _ lines] find_next_frame [of st _ dirty]
    find_next_frame [of st _ selecting] find_next_frame [of st _ selection_start]
    find_next_frame [of st _ selection_end] find_next_defined [of st]
  by (simp add: move_to_hit_frame)

lemmas search_eval_defs =
  find_next_def current_buffer_def store_current_def py_get_def py_set_def py_index_def
  py_find_def Let_def move_to_hit_def set_status_def QUOTE_def format_int_def upto_rec1

theorem find_next_keeps_text_witness:
  "last_search search_example \<noteq> []
   \<and> (\<exists>st'. find_next search_example = Inr st'
          \<and> map lines (buffers st') = [[str ''foo'', str ''bar foo'']]
          \<and> map dirty (buffers st') = [False]
          \<and> map cursor_y (buffers st') = [1] \<and> map cursor_x (buffers st') = [4])"
proof -
  have q: "last_search search_example \<noteq> []"
    by (simp add: search_example_def)
  have run: "find_next search_example =
     Inr (search_example
          \<lparr>buffers := [\<lparr>lines = [str ''foo'', str ''bar foo''], file_path = None, cursor_y = 1,
                   cursor_x = 4, preferred_x = 4, scroll_y = 0, scroll_x = 0, dirty = False,
                   selecting = False, selection_start = None, selection_end = None\<rparr>],
           status := str ''Found '' @ [QUOTE] @ str ''foo'' @ [QUOTE] @ str '' at line 2.''\<rparr>)"
    by (simp add: search_example_def search_eval_defs)
  from find_next_keeps_text [OF q] run have
    "map lines (buffers (search_example
          \<lparr>buffers := [\<lparr>lines = [str ''foo'', str ''bar foo''], file_path = None, cursor_y = 1,
                   cursor_x = 4, preferred_x = 4, scroll_y = 0, scroll_x = 0, dirty = False,
                   selecting = False, selection_start = None, selection_end = None\<rparr>],
           status := str ''Found '' @ [QUOTE] @ str ''foo'' @ [QUOTE] @ str '' at line 2.''\<rparr>))
     = map lines (buffers search_example)"
    by blast
  with q run show ?thesis
    by (simp add: search_example_def)
qed

section \<open>Style spans\<close>


subsection \<open>What holds of every run\<close>








subsection \<open>What holds when the tokens fit the lines\<close>




















lemma caught_errors_give_empty_map:
  assumes "snd (generate_tokens (source_text ls)) = Some e"
    and "e = TokenError \<or> e = IndentationError"
  shows "build_syntax_spans generate_tokens kwlist builtins ls = Inr Map.empty"
  using assms by (auto simp: build_syntax_spans_def Let_def)

text \<open>
  C7. \<open>build_syntax_spans\<close> turns a failure of the tokenizer into the empty map only for
  \<open>TokenError\<close> and \<open>IndentationError\<close>. For the lines space \<open>a\<close> and a null character the
  tokenizer of Python 3.12.3 raises \<open>SystemError\<close>, and \<open>build_syntax_spans\<close> lets it
  through to its caller; a \<open>SyntaxError\<close> passes in the same way, although
  \<open>compute_indents\<close> catches it on the same token stream.
\<close>

theorem build_syntax_spans_lets_errors_through:
  "build_syntax_spans null_tokens [] {} null_lines = Inl SystemError
   \<and> build_syntax_spans syntax_error_tokens [] {} null_lines = Inl SyntaxError
   \<and> compute_indents syntax_error_tokens null_lines = Inr None
   \<and> build_syntax_spans open_tokens [] {str ''print''} open_lines = Inr Map.empty"
  by (simp add: null_tokens_def syntax_error_tokens_def open_tokens_def build_syntax_spans_def
      compute_indents_def Let_def)

section \<open>Indentation cleanup and skipped lines\<close>

lemmas indent_eval_defs =
  compute_indents_def indent_step_def cleanup_indentation_def non_empty_or_blank_def
  expand_leading_tabs_def replace_tabs_def lstrip_chars_def slice_to_def slice_from_def
  py_clip_def spaces_def py_in_def mk_token_def INDENT_WIDTH_def
  source_text_def Let_def LF_def TAB_def SPACE_def upto_rec1 replicate_numeral

lemma cleanup_lines_length: "length (cleanup_lines indents skip idx ls) = length ls"
  by (induction ls arbitrary: idx) simp_all

lemma cleanup_lines_skip:
  "i < length ls \<Longrightarrow> idx + int i \<in> skip \<Longrightarrow> cleanup_lines indents skip idx ls ! i = ls ! i"
proof (induction ls arbitrary: idx i)
  case Nil
  then show ?case by simp
next
  case (Cons raw rest)
  show ?case
  proof (cases i)
    case 0
    with Cons.prems show ?thesis by simp
  next
    case (Suc j)
    with Cons.prems have "j < length rest" "(idx + 1) + int j \<in> skip"
      by (simp_all add: algebra_simps)
    from Cons.IH [OF this] Suc show ?thesis by simp
  qed
qed

text \<open>
  C4 (as amended). When the indents are computed, every line whose 1-based number is in the
  skip set comes out of \<open>cleanup_indentation\<close> exactly as it went in, leading tabs
  included; the cleaned list has as many lines as the input.
\<close>

theorem cleanup_keeps_skipped_lines:
  assumes "compute_indents generate_tokens ls = Inr (Some (indents, skip))"
    and "line_no \<in> skip" and "1 \<le> line_no" and "line_no \<le> int (length ls)"
  shows "\<exists>cleaned message.
           cleanup_indentation generate_tokens ls = Inr (cleaned, message)
           \<and> length cleaned = length ls
           \<and> cleaned ! nat (line_no - 1) = ls ! nat (line_no - 1)"
proof -
  let ?out = "cleanup_lines indents skip 1 ls"
  from assms(3,4) have i: "nat (line_no - 1) < length ls" by linarith
  from assms(3) have "1 + int (nat (line_no - 1)) = line_no" by simp
  with assms(2) have "1 + int (nat (line_no - 1)) \<in> skip" by simp
  from cleanup_lines_skip [OF i this] have same: "?out ! nat (line_no - 1) = ls ! nat (line_no - 1)" .
  from i have "?out \<noteq> []"
    using cleanup_lines_length [of indents skip 1 ls] by auto
  then have "non_empty_or_blank ?out = ?out"
    by (simp add: non_empty_or_blank_def)
  with assms(1) same show ?thesis
    by (simp add: cleanup_indentation_def cleanup_lines_length)
qed

theorem cleanup_keeps_skipped_lines_witness:
  "compute_indents tab_tokens tab_lines = Inr (Some (Map.empty, {3, 2, 1}))
   \<and> (2::int) \<in> {3, 2, 1} \<and> 2 \<le> int (length tab_lines)
   \<and> (\<exists>cleaned message.
           cleanup_indentation tab_tokens tab_lines = Inr (cleaned, message)
           \<and> cleaned ! 1 = [TAB] @ str ''x'')"
proof -
  have c: "compute_indents tab_tokens tab_lines = Inr (Some (Map.empty, {3, 2, 1}))"
    by (simp add: tab_tokens_def tab_lines_def indent_eval_defs)
  have l: "(2::int) \<le> int (length tab_lines)" "tab_lines ! 1 = [TAB] @ str ''x''"
    by (simp_all add: tab_lines_def)
  from cleanup_keeps_skipped_lines [OF c, of 2] l c show ?thesis
    by auto
qed

text \<open>
  The middle line of the three-line string is in the skip set and starts with a tab: the
  cleanup returns it with the tab, while replacing leading tabs by spaces would give four
  spaces and \<open>x\<close>.
\<close>

theorem cleanup_skipped_tab_counterexample:
  "compute_indents tab_tokens tab_lines = Inr (Some (Map.empty, {3, 2, 1}))
   \<and> cleanup_indentation tab_tokens tab_lines
       = Inr (tab_lines, str ''Indentation normalized to 4 spaces.'')
   \<and> tab_lines ! 1 = [TAB] @ str ''x''
   \<and> expand_leading_tabs (tab_lines ! 1) = str ''    x''"
  by (simp add: tab_tokens_def tab_lines_def indent_eval_defs)

end
